theory Spec2Isabelle
  imports Complex_Main "HOL-Library.AList" "HOL-Library.Sublist"
begin

section \<open>LineupLogic: schedule resolution, projection and waiver recommendations\<close>

text \<open>
  A shallow embedding of \<^verbatim>\<open>backend/app/main.py\<close>. Conventions:
  \<^item> Python floats are idealised as \<open>real\<close> numbers (no rounding error, no NaN);
  \<^item> an aware datetime is its UTC instant, an \<open>int\<close> of microseconds counted from
    0001-01-01T00:00:00; the library's representable range (years 1 to 9999) is kept,
    since leaving it makes datetime arithmetic raise \<^verbatim>\<open>OverflowError\<close>;
  \<^item> the clock, the ISO parser of the datetime library and the scoreboard service are
    parameters of the functions that use them;
  \<^item> the module-level cache dictionary is a record passed in and returned;
  \<^item> a function that queries the scoreboard also returns the day offsets it queried;
  \<^item> a character is a code point below 256, so a text holding other code points has no
    counterpart here.
\<close>

subsection \<open>Strings\<close>

definition is_space :: "char \<Rightarrow> bool" where
  \<comment> \<open>the code points below 256 for which \<^verbatim>\<open>str.isspace\<close> holds, U+0085 and U+00A0 included\<close>
  "is_space c = ((of_char c :: nat) \<in> {9, 10, 11, 12, 13, 28, 29, 30, 31, 32, 133, 160})"

definition strip :: "string \<Rightarrow> string" where
  "strip s = rev (dropWhile is_space (rev (dropWhile is_space s)))"

text \<open>
  \<^verbatim>\<open>str.upper\<close> on code points below 256: the ASCII letters and the accented letters
  U+00E0 to U+00FE (the division sign apart) move down by 32, and the sharp s becomes
  \<^verbatim>\<open>SS\<close>. The micro sign and the y with diaeresis have their capitals above U+00FF; they
  are left as they are, which like their capitals are not ASCII.
\<close>

definition upper_char :: "char \<Rightarrow> string" where
  "upper_char c =
     (let n = (of_char c :: nat)
      in if (97 \<le> n \<and> n \<le> 122) \<or> (224 \<le> n \<and> n \<le> 254 \<and> n \<noteq> 247) then [char_of (n - 32)]
         else if n = 223 then ''SS''
         else [c])"

definition upper :: "string \<Rightarrow> string" where
  "upper s = concat (map upper_char s)"

subsection \<open>Canonical NBA team abbreviations\<close>

definition NBA_TEAM_ABBREVS :: "string list" where
  "NBA_TEAM_ABBREVS =
     [''ATL'', ''BOS'', ''BKN'', ''CHA'', ''CHI'', ''CLE'', ''DAL'', ''DEN'', ''DET'', ''GSW'',
      ''HOU'', ''IND'', ''LAC'', ''LAL'', ''MEM'', ''MIA'', ''MIL'', ''MIN'', ''NOP'', ''NYK'',
      ''OKC'', ''ORL'', ''PHI'', ''PHX'', ''POR'', ''SAC'', ''SAS'', ''TOR'', ''UTA'', ''WAS'']"

definition TEAM_ABBREV_NORMALIZE :: "(string \<times> string) list" where
  "TEAM_ABBREV_NORMALIZE =
     [(''GS'', ''GSW''), (''NO'', ''NOP''), (''SA'', ''SAS''), (''PHO'', ''PHX''),
      (''BK'', ''BKN''), (''NY'', ''NYK''), (''WSH'', ''WAS'')]"

definition normalize_team_abbrev :: "string option \<Rightarrow> string option" where
  "normalize_team_abbrev abbrev =
     (case abbrev of
        None \<Rightarrow> None
      | Some s \<Rightarrow>
          if s = [] then None
          else
            let a = upper (strip s);
                a' = (case map_of TEAM_ABBREV_NORMALIZE a of None \<Rightarrow> a | Some b \<Rightarrow> b)
            in if a' \<in> set NBA_TEAM_ABBREVS then Some a' else None)"

subsection \<open>Players\<close>

text \<open>
  A schedule entry carries its date under one of five aliased fields; a field holds the
  text \<^verbatim>\<open>str\<close> gives for its value, or nothing.
\<close>

record game =
  date :: "string option"
  startDate :: "string option"
  startTime :: "string option"
  gameDate :: "string option"
  gameTime :: "string option"

text \<open>
  The value of \<^verbatim>\<open>projected_avg_points\<close>: missing or \<^verbatim>\<open>None\<close>, a value \<^verbatim>\<open>float\<close>
  converts, or a value on which \<^verbatim>\<open>float\<close> raises.
\<close>

datatype attr_value = Absent | Numeric real | NonNumeric

text \<open>
  The attributes of a provider player that the engine reads. \<open>schedule\<close> is \<open>None\<close> when
  the attribute is missing or is not a list; \<open>avg_points\<close> is a number or missing.
\<close>

record player =
  playerId :: "int option"
  player_id :: "int option"
  id_attr :: "int option"
  espn_id :: "int option"
  injuryStatus :: "string option"
  proTeam :: "string option"
  avg_points :: "real option"
  projected_avg_points :: attr_value
  schedule :: "game list option"

definition is_unavailable :: "player \<Rightarrow> bool" where
  "is_unavailable p =
     (let status = upper (strip (case injuryStatus p of None \<Rightarrow> [] | Some s \<Rightarrow> s))
      in status \<in> {''OUT'', ''SUSPENSION''})"

definition get_player_id :: "player \<Rightarrow> int option" where
  "get_player_id p =
     (case playerId p of Some v \<Rightarrow> Some v
      | None \<Rightarrow> (case player_id p of Some v \<Rightarrow> Some v
      | None \<Rightarrow> (case id_attr p of Some v \<Rightarrow> Some v
      | None \<Rightarrow> espn_id p)))"

definition get_points_per_game :: "player \<Rightarrow> real" where
  "get_points_per_game p =
     (case projected_avg_points p of
        Numeric v \<Rightarrow> v
      | _ \<Rightarrow> (case avg_points p of None \<Rightarrow> 0 | Some a \<Rightarrow> a))"

subsection \<open>Datetimes\<close>

type_synonym utc_time = int

definition US_PER_DAY :: int where
  "US_PER_DAY = 86400000000"

definition MAX_ORDINAL :: int where
  \<comment> \<open>the day number of 9999-12-31, counting 0001-01-01 as day 1\<close>
  "MAX_ORDINAL = 3652059"

definition representable :: "int \<Rightarrow> bool" where
  "representable t = (0 \<le> t \<and> t < MAX_ORDINAL * US_PER_DAY)"

datatype py_error = OverflowError

definition add_days :: "utc_time \<Rightarrow> int \<Rightarrow> py_error + utc_time" where
  \<comment> \<open>\<^verbatim>\<open>now + timedelta(days=days)\<close>, which raises when the sum is not a datetime\<close>
  "add_days t days =
     (let r = t + days * US_PER_DAY in if representable r then Inr r else Inl OverflowError)"

text \<open>
  What \<^verbatim>\<open>datetime.fromisoformat\<close> returns: the wall-clock reading and, for an aware
  value, its UTC offset (both in microseconds).
\<close>

record parsed_datetime =
  wall_clock :: int
  utcoffset :: "int option"

type_synonym iso_parser = "string \<Rightarrow> parsed_datetime option"

definition ends_with_Z :: "string \<Rightarrow> bool" where
  "ends_with_Z s = (s \<noteq> [] \<and> last s = CHR ''Z'')"

definition first_truthy :: "string option list \<Rightarrow> string option" where
  \<comment> \<open>the chain \<^verbatim>\<open>a or b or ...\<close> followed by \<^verbatim>\<open>if not dt_str\<close>\<close>
  "first_truthy vs = (case filter (\<lambda>v. v \<noteq> None \<and> v \<noteq> Some []) vs of [] \<Rightarrow> None | v # _ \<Rightarrow> v)"

text \<open>
  In \<^verbatim>\<open>_parse_game_datetime\<close> every exception of the \<^verbatim>\<open>try\<close> block gives \<^verbatim>\<open>None\<close>: the
  parser rejecting the text, and \<^verbatim>\<open>astimezone\<close> leaving the representable range when it
  removes the offset. A naive value is read as UTC.
\<close>

definition parse_game_datetime :: "iso_parser \<Rightarrow> game \<Rightarrow> utc_time option" where
  "parse_game_datetime fromisoformat g =
     (case first_truthy [date g, startDate g, startTime g, gameDate g, gameTime g] of
        None \<Rightarrow> None
      | Some dt_str \<Rightarrow>
          let s = strip dt_str;
              s' = (if ends_with_Z s then butlast s @ ''+00:00'' else s)
          in (case fromisoformat s' of
                None \<Rightarrow> None
              | Some dt \<Rightarrow>
                  let t = (case utcoffset dt of None \<Rightarrow> wall_clock dt
                           | Some off \<Rightarrow> wall_clock dt - off)
                  in if representable (wall_clock dt) \<and> representable t then Some t else None))"

definition schedule_has_parsable_dates :: "iso_parser \<Rightarrow> player \<Rightarrow> bool" where
  "schedule_has_parsable_dates fromisoformat p =
     (case schedule p of
        None \<Rightarrow> False
      | Some sched \<Rightarrow> list_ex (\<lambda>g. parse_game_datetime fromisoformat g \<noteq> None) sched)"

fun count_in_window :: "iso_parser \<Rightarrow> utc_time \<Rightarrow> utc_time \<Rightarrow> game list \<Rightarrow> int \<Rightarrow> int" where
  "count_in_window fromisoformat now end_t [] count = count"
| "count_in_window fromisoformat now end_t (g # gs) count =
     (case parse_game_datetime fromisoformat g of
        None \<Rightarrow> count_in_window fromisoformat now end_t gs count
      | Some dt \<Rightarrow>
          count_in_window fromisoformat now end_t gs
            (if now \<le> dt \<and> dt \<le> end_t then count + 1 else count))"

definition games_next_n_days_from_player_schedule ::
  "iso_parser \<Rightarrow> utc_time \<Rightarrow> player \<Rightarrow> int \<Rightarrow> py_error + int" where
  "games_next_n_days_from_player_schedule fromisoformat now p days =
     (case schedule p of
        None \<Rightarrow> Inr 0
      | Some sched \<Rightarrow>
          if sched = [] then Inr 0
          else (case add_days now days of
                  Inl e \<Rightarrow> Inl e
                | Inr end_t \<Rightarrow> Inr (count_in_window fromisoformat now end_t sched 0)))"

subsection \<open>ESPN scoreboard schedule and the team schedule cache\<close>

text \<open>
  A scoreboard payload is the list of its events; an event is the list of its
  competitions, a competition the list of its competitors, and a competitor the
  abbreviation of its team (\<open>None\<close> when the team or the abbreviation is missing).
\<close>

type_synonym competitor = "string option"
type_synonym competition = "competitor list"
type_synonym event = "competition list"

text \<open>The exceptions a refresh can meet, in the order of the handlers; each carries its text.\<close>

datatype fetch_error = HTTPError int string | URLError string | OtherException string

text \<open>
  The scoreboard service: the outcome of the query for the date \<open>i\<close> days after today
  (computing that date included).
\<close>

type_synonym scoreboard = "nat \<Rightarrow> fetch_error + event list"

text \<open>A \<^verbatim>\<open>Counter\<close> or dictionary of counts, in insertion order.\<close>

type_synonym counts = "(string \<times> int) list"

definition counter_incr :: "string \<Rightarrow> counts \<Rightarrow> counts" where
  \<comment> \<open>\<^verbatim>\<open>counts[abbrev] += 1\<close>\<close>
  "counter_incr k cs = AList.update k (case map_of cs k of None \<Rightarrow> 1 | Some v \<Rightarrow> v + 1) cs"

fun count_competitors :: "competitor list \<Rightarrow> counts \<Rightarrow> counts" where
  "count_competitors [] cs = cs"
| "count_competitors (c # rest) cs =
     count_competitors rest
       (case normalize_team_abbrev c of None \<Rightarrow> cs | Some abbrev \<Rightarrow> counter_incr abbrev cs)"

fun count_events :: "event list \<Rightarrow> counts \<Rightarrow> counts" where
  "count_events [] cs = cs"
| "count_events (ev # evs) cs =
     (case ev of
        [] \<Rightarrow> count_events evs cs
      | competitors # _ \<Rightarrow> count_events evs (count_competitors competitors cs))"

fun fetch_days :: "scoreboard \<Rightarrow> nat list \<Rightarrow> counts \<Rightarrow> nat list \<Rightarrow> (fetch_error + counts) \<times> nat list" where
  "fetch_days fetch [] cs queried = (Inr cs, queried)"
| "fetch_days fetch (i # rest) cs queried =
     (case fetch i of
        Inl e \<Rightarrow> (Inl e, queried @ [i])
      | Inr events \<Rightarrow> fetch_days fetch rest (count_events events cs) (queried @ [i]))"

definition compute_team_games_next_n_days ::
  "scoreboard \<Rightarrow> int \<Rightarrow> (fetch_error + counts) \<times> nat list" where
  "compute_team_games_next_n_days fetch days =
     (case fetch_days fetch [0..<nat (days + 1)] [] [] of
        (Inl e, queried) \<Rightarrow> (Inl e, queried)
      | (Inr cs, queried) \<Rightarrow> (Inr (filter (\<lambda>(k, v). k \<in> set NBA_TEAM_ABBREVS) cs), queried))"

record team_schedule_cache =
  cache_ts :: real
  cache_days :: "int option"
  cache_counts :: counts
  last_error :: "string option"
  last_status :: "int option"

definition TEAM_SCHEDULE_CACHE :: team_schedule_cache where
  \<comment> \<open>the cache at process start\<close>
  "TEAM_SCHEDULE_CACHE =
     \<lparr>cache_ts = 0, cache_days = None, cache_counts = [], last_error = None, last_status = None\<rparr>"

definition cache_ok :: "team_schedule_cache \<Rightarrow> real \<Rightarrow> int \<Rightarrow> int \<Rightarrow> bool" where
  "cache_ok c now_ts days ttl_seconds =
     (cache_days c = Some days \<and> now_ts - cache_ts c < real_of_int ttl_seconds
      \<and> length (cache_counts c) > 0)"

definition refresh ::
  "scoreboard \<Rightarrow> real \<Rightarrow> int \<Rightarrow> counts \<times> team_schedule_cache \<times> nat list" where
  \<comment> \<open>the \<^verbatim>\<open>try\<close> statement of \<^verbatim>\<open>get_team_games_cache\<close>\<close>
  "refresh fetch now_ts days =
     (case compute_team_games_next_n_days fetch days of
        (Inr cs, queried) \<Rightarrow>
          (cs,
           \<lparr>cache_ts = now_ts, cache_days = Some days, cache_counts = cs,
            last_error = None, last_status = Some 200\<rparr>,
           queried)
      | (Inl (HTTPError code e), queried) \<Rightarrow>
          ([],
           \<lparr>cache_ts = now_ts, cache_days = Some days, cache_counts = [],
            last_error = Some (''HTTPError: '' @ e), last_status = Some code\<rparr>,
           queried)
      | (Inl (URLError e), queried) \<Rightarrow>
          ([],
           \<lparr>cache_ts = now_ts, cache_days = Some days, cache_counts = [],
            last_error = Some (''URLError: '' @ e), last_status = None\<rparr>,
           queried)
      | (Inl (OtherException e), queried) \<Rightarrow>
          ([],
           \<lparr>cache_ts = now_ts, cache_days = Some days, cache_counts = [],
            last_error = Some (''Exception: '' @ e), last_status = None\<rparr>,
           queried))"

definition get_team_games_cache ::
  "scoreboard \<Rightarrow> real \<Rightarrow> team_schedule_cache \<Rightarrow> int \<Rightarrow> int
     \<Rightarrow> counts \<times> team_schedule_cache \<times> nat list" where
  "get_team_games_cache fetch now_ts c days ttl_seconds =
     (if cache_ok c now_ts days ttl_seconds then (cache_counts c, c, [])
      else refresh fetch now_ts days)"

subsection \<open>Schedule resolver and projection\<close>

definition py_round :: "real \<Rightarrow> int" where
  \<comment> \<open>\<^verbatim>\<open>round(x)\<close>: to the nearest integer, a tie to the even one\<close>
  "py_round x =
     (let f = \<lfloor>x\<rfloor>; d = x - of_int f
      in if d < 1 / 2 then f else if 1 / 2 < d then f + 1 else if even f then f else f + 1)"

definition games_next_n_days ::
  "iso_parser \<Rightarrow> scoreboard \<Rightarrow> utc_time \<Rightarrow> real \<Rightarrow> team_schedule_cache \<Rightarrow> player \<Rightarrow> int
     \<Rightarrow> (py_error + int) \<times> team_schedule_cache \<times> nat list" where
  "games_next_n_days fromisoformat fetch now now_ts c p days =
     (if schedule_has_parsable_dates fromisoformat p
      then (games_next_n_days_from_player_schedule fromisoformat now p days, c, [])
      else
        (case normalize_team_abbrev (proTeam p) of
           None \<Rightarrow> (Inr 0, c, [])
         | Some team_abbrev \<Rightarrow>
             (case get_team_games_cache fetch now_ts c days 900 of
                (cs, c', queried) \<Rightarrow>
                  (case map_of cs team_abbrev of
                     Some v \<Rightarrow> (Inr v, c', queried)
                   | None \<Rightarrow>
                       let present = map snd cs
                       in if present \<noteq> []
                          then (Inr (py_round (real_of_int (sum_list present) / real (length present))),
                                c', queried)
                          else (Inr 0, c', queried)))))"

definition projected_points_next_n_days ::
  "iso_parser \<Rightarrow> scoreboard \<Rightarrow> utc_time \<Rightarrow> real \<Rightarrow> team_schedule_cache \<Rightarrow> player \<Rightarrow> int
     \<Rightarrow> (py_error + real) \<times> team_schedule_cache \<times> nat list" where
  "projected_points_next_n_days fromisoformat fetch now now_ts c p days =
     (let ppg = get_points_per_game p
      in (case games_next_n_days fromisoformat fetch now now_ts c p days of
            (Inl e, c', queried) \<Rightarrow> (Inl e, c', queried)
          | (Inr g, c', queried) \<Rightarrow>
              if g = 0 \<and> schedule_has_parsable_dates fromisoformat p then (Inr 0, c', queried)
              else if g \<le> 0 then (Inr (ppg * 1), c', queried)
              else (Inr (ppg * real_of_int g), c', queried)))"

subsection \<open>Waiver recommendations\<close>

text \<open>
  Within one request the projection of a player is taken as a function \<open>pts\<close> of the
  player: the value of \<^verbatim>\<open>projected_points_next_n_days(p, days=days)\<close>. A recommendation
  keeps the two players and the gain \<^verbatim>\<open>delta\<close> (the response shows it rounded to two
  decimals and the players packed for display). The model of \<^verbatim>\<open>waiver_recommendations\<close>
  starts from the roster of the team that was found and from the free agents the provider
  returned; a player object counts as true in \<^verbatim>\<open>if not forced_drop\<close>.
\<close>

record recommendation =
  rec_add :: player
  rec_drop :: player
  expected_gain_next_n_days :: real

datatype http_error = HTTPException int string

record waiver_response =
  drop_candidates_used :: "player list option"
  recommendations :: "recommendation list"

fun match_drop :: "(player \<Rightarrow> real) \<Rightarrow> player \<Rightarrow> player list \<Rightarrow> recommendation option" where
  \<comment> \<open>the inner loop: the first candidate with \<^verbatim>\<open>delta > 0\<close>\<close>
  "match_drop pts fa [] = None"
| "match_drop pts fa (dp # rest) =
     (let delta = pts fa - pts dp
      in if delta > 0
         then Some \<lparr>rec_add = fa, rec_drop = dp, expected_gain_next_n_days = delta\<rparr>
         else match_drop pts fa rest)"

fun match_free_agents ::
  "(player \<Rightarrow> real) \<Rightarrow> player list \<Rightarrow> int \<Rightarrow> player list \<Rightarrow> recommendation list
     \<Rightarrow> int option list \<Rightarrow> recommendation list" where
  \<comment> \<open>the outer loop over \<^verbatim>\<open>free_agents_sorted\<close>\<close>
  "match_free_agents pts drop_candidates limit [] recs used_add_ids = recs"
| "match_free_agents pts drop_candidates limit (fa # rest) recs used_add_ids =
     (if get_player_id fa \<in> set used_add_ids
      then match_free_agents pts drop_candidates limit rest recs used_add_ids
      else
        (case match_drop pts fa drop_candidates of
           None \<Rightarrow>
             if int (length recs) \<ge> limit then recs
             else match_free_agents pts drop_candidates limit rest recs used_add_ids
         | Some r \<Rightarrow>
             if int (length (recs @ [r])) \<ge> limit then recs @ [r]
             else match_free_agents pts drop_candidates limit rest (recs @ [r])
                    (get_player_id fa # used_add_ids)))"

definition sorted_desc :: "(player \<Rightarrow> real) \<Rightarrow> player list \<Rightarrow> player list" where
  \<comment> \<open>\<^verbatim>\<open>sorted(xs, key=pts, reverse=True)\<close>: reverse, sort stably, reverse\<close>
  "sorted_desc pts xs = rev (sort_key pts (rev xs))"

definition find_forced_drop :: "player list \<Rightarrow> int option \<Rightarrow> http_error + player option" where
  \<comment> \<open>the lookup of \<^verbatim>\<open>drop_player_id\<close> on the roster, raising 404 when it finds nobody\<close>
  "find_forced_drop roster drop_player_id =
     (case drop_player_id of
        None \<Rightarrow> Inr None
      | Some d \<Rightarrow>
          (case find (\<lambda>p. get_player_id p = Some d) roster of
             None \<Rightarrow> Inl (HTTPException 404 ''drop_player_id not found on roster'')
           | Some p \<Rightarrow> Inr (Some p)))"

definition select_drop_candidates :: "(player \<Rightarrow> real) \<Rightarrow> player list \<Rightarrow> player option \<Rightarrow> player list" where
  \<comment> \<open>\<^verbatim>\<open>sorted(roster, key=...)[:6]\<close>, replaced by the forced player when there is one\<close>
  "select_drop_candidates pts roster forced_drop =
     (case forced_drop of
        Some p \<Rightarrow> [p]
      | None \<Rightarrow> take 6 (sort_key pts roster))"

definition waiver_recommendations ::
  "(player \<Rightarrow> real) \<Rightarrow> player list \<Rightarrow> player list \<Rightarrow> int \<Rightarrow> int option
     \<Rightarrow> http_error + waiver_response" where
  "waiver_recommendations pts team_roster free_agent_pool limit drop_player_id =
     (let roster = filter (\<lambda>p. \<not> is_unavailable p) team_roster
      in if roster = [] then Inr \<lparr>drop_candidates_used = None, recommendations = []\<rparr>
         else
           (case find_forced_drop roster drop_player_id of
              Inl e \<Rightarrow> Inl e
            | Inr forced_drop \<Rightarrow>
                let drop_candidates = select_drop_candidates pts roster forced_drop;
                    free_agents = filter (\<lambda>p. \<not> is_unavailable p) free_agent_pool;
                    free_agents_sorted = sorted_desc pts free_agents
                in Inr \<lparr>drop_candidates_used = Some drop_candidates,
                        recommendations =
                          match_free_agents pts drop_candidates limit free_agents_sorted [] []\<rparr>))"

subsection \<open>Example inputs\<close>

definition example_player :: player where
  \<comment> \<open>a player with every attribute missing\<close>
  "example_player =
     \<lparr>playerId = None, player_id = None, id_attr = None, espn_id = None, injuryStatus = None,
      proTeam = None, avg_points = None, projected_avg_points = Absent, schedule = None\<rparr>"

definition scoreboard_down :: scoreboard where
  "scoreboard_down = (\<lambda>i. Inl (URLError ''timed out''))"

definition scoreboard_no_games :: scoreboard where
  "scoreboard_no_games = (\<lambda>i. Inr [])"

definition scoreboard_one_game :: scoreboard where
  \<comment> \<open>one game today, listed with an alias, a lower-case code and an unknown code\<close>
  "scoreboard_one_game =
     (\<lambda>i. if i = 0 then Inr [[[Some ''GS'', Some '' lal'', Some ''XYZ'', None]]] else Inr [])"

definition cache_after_failure :: team_schedule_cache where
  \<comment> \<open>the cache after the refresh at time 1000 for a 7-day window failed\<close>
  "cache_after_failure = fst (snd (refresh scoreboard_down 1000 7))"

definition warm_cache :: team_schedule_cache where
  "warm_cache =
     \<lparr>cache_ts = 1000, cache_days = Some 7, cache_counts = [(''ATL'', 5), (''BOS'', 7)],
      last_error = None, last_status = Some 200\<rparr>"

definition example_now :: utc_time where
  \<comment> \<open>2026-11-04T00:00:00 UTC\<close>
  "example_now = 63929347200000000"

definition US_PER_HOUR :: int where
  "US_PER_HOUR = 3600000000"

definition example_fromisoformat :: iso_parser where
  \<comment> \<open>the ISO parser on the texts of the examples; it rejects every other text\<close>
  "example_fromisoformat s =
     (if s = ''2026-11-04T00:00:00+00:00''
      then Some \<lparr>wall_clock = example_now, utcoffset = Some 0\<rparr>
      else if s = ''2026-11-06 19:30:00''
      then Some \<lparr>wall_clock = example_now + 2 * US_PER_DAY + 19 * US_PER_HOUR + US_PER_HOUR div 2,
                 utcoffset = None\<rparr>
      else if s = ''2026-11-10T20:00:00-05:00''
      then Some \<lparr>wall_clock = example_now + 6 * US_PER_DAY + 20 * US_PER_HOUR,
                 utcoffset = Some (- 5 * US_PER_HOUR)\<rparr>
      else if s = ''2026-11-11T00:00:00+00:00''
      then Some \<lparr>wall_clock = example_now + 7 * US_PER_DAY, utcoffset = Some 0\<rparr>
      else if s = ''2026-11-12T00:00:00+00:00''
      then Some \<lparr>wall_clock = example_now + 8 * US_PER_DAY, utcoffset = Some 0\<rparr>
      else None)"

definition game_dated :: "string \<Rightarrow> game" where
  "game_dated s =
     \<lparr>date = Some s, startDate = None, startTime = None, gameDate = None, gameTime = None\<rparr>"

definition example_schedule :: "game list" where
  \<comment> \<open>a game at the very start of a 7-day window, an entry without a usable date, a game
      given as a naive time, a game one hour after the window's end once its offset is removed,
      a game at the very end (under an aliased field, after an empty one), and a game a day late\<close>
  "example_schedule =
     [game_dated ''2026-11-04T00:00:00Z'',
      game_dated ''TBD'',
      game_dated '' 2026-11-06 19:30:00 '',
      game_dated ''2026-11-10T20:00:00-05:00'',
      \<lparr>date = Some [], startDate = None, startTime = Some ''2026-11-11T00:00:00Z'',
       gameDate = None, gameTime = None\<rparr>,
      game_dated ''2026-11-12T00:00:00Z'']"

definition scheduled_player :: player where
  "scheduled_player =
     example_player\<lparr>proTeam := Some ''LAL'', avg_points := Some 10,
                    schedule := Some example_schedule\<rparr>"

definition bye_player :: player where
  \<comment> \<open>a player whose only game lies after a 7-day window\<close>
  "bye_player =
     example_player\<lparr>proTeam := Some ''LAL'', avg_points := Some 10,
                    schedule := Some [game_dated ''2026-11-12T00:00:00Z'']\<rparr>"

definition team_player :: "string \<Rightarrow> player" where
  \<comment> \<open>a player without a schedule, known by team only\<close>
  "team_player team = example_player\<lparr>proTeam := Some team, avg_points := Some 10\<rparr>"

definition negative_rate_player :: player where
  \<comment> \<open>a player without schedule or team whose historical average is below zero\<close>
  "negative_rate_player = example_player\<lparr>avg_points := Some (- 1)\<rparr>"

definition roster_player :: "int \<Rightarrow> real \<Rightarrow> player" where
  \<comment> \<open>a player known by id and historical average only; its projection is that average\<close>
  "roster_player pid ppg = example_player\<lparr>playerId := Some pid, avg_points := Some ppg\<rparr>"


subsection \<open>Auxiliary notions for the properties\<close>

text \<open>
  The competitors a refresh aggregates (those of the first competition of every event of
  every queried day) and how often a canonical code occurs among them.
\<close>

definition occurrences :: "string \<Rightarrow> competitor list \<Rightarrow> int" where
  "occurrences k comps = int (length (filter (\<lambda>c. normalize_team_abbrev c = Some k) comps))"

definition bump_by :: "int option \<Rightarrow> int \<Rightarrow> int option" where
  "bump_by m n = (if n = 0 then m else Some ((case m of None \<Rightarrow> 0 | Some v \<Rightarrow> v) + n))"

fun listed_competitors :: "event list \<Rightarrow> competitor list" where
  "listed_competitors [] = []"
| "listed_competitors (ev # evs) = (case ev of [] \<Rightarrow> [] | competitors # _ \<Rightarrow> competitors) @ listed_competitors evs"

fun listed_in_days :: "scoreboard \<Rightarrow> nat list \<Rightarrow> competitor list" where
  "listed_in_days fetch [] = []"
| "listed_in_days fetch (i # rest) = (case fetch i of Inl e \<Rightarrow> [] | Inr events \<Rightarrow> listed_competitors events) @ listed_in_days fetch rest"

definition counts_ok :: "counts \<Rightarrow> bool" where
  "counts_ok cs = (distinct (map fst cs) \<and> list_all (\<lambda>(k, v). k \<in> set NBA_TEAM_ABBREVS \<and> 1 \<le> v) cs)"

text \<open>The cache states a process can reach: the initial one, and the one after any call.\<close>

inductive reachable :: "team_schedule_cache \<Rightarrow> bool" where
  start: "reachable TEAM_SCHEDULE_CACHE"
| call: "reachable c \<Longrightarrow>
          reachable (fst (snd (get_team_games_cache fetch now_ts c days ttl_seconds)))"


section \<open>Properties\<close>

subsection \<open>What a refresh counts\<close>

lemma occurrences_nonneg: "0 \<le> occurrences k comps"
  by (simp add: occurrences_def)

lemma occurrences_append: "occurrences k (xs @ ys) = occurrences k xs + occurrences k ys"
  by (simp add: occurrences_def)

lemma bump_by_bump_by: "0 \<le> a \<Longrightarrow> 0 \<le> b \<Longrightarrow> bump_by (bump_by m a) b = bump_by m (a + b)"
  by (auto simp: bump_by_def split: option.splits)

lemma map_of_counter_incr:
  "map_of (counter_incr a cs) k = (if k = a then bump_by (map_of cs k) 1 else map_of cs k)"
  by (auto simp: counter_incr_def update_conv' bump_by_def split: option.splits)

lemma map_of_count_competitors:
  "map_of (count_competitors comps cs) k = bump_by (map_of cs k) (occurrences k comps)"
proof (induction comps arbitrary: cs)
  case Nil
  show ?case by (simp add: occurrences_def bump_by_def)
next
  case (Cons c rest)
  have split: "occurrences k (c # rest) = occurrences k [c] + occurrences k rest"
    using occurrences_append [of k "[c]" rest] by simp
  show ?case
  proof (cases "normalize_team_abbrev c")
    case None
    then have "occurrences k [c] = 0" by (simp add: occurrences_def)
    with None Cons.IH split show ?thesis by simp
  next
    case (Some a)
    have one: "map_of (counter_incr a cs) k = bump_by (map_of cs k) (occurrences k [c])"
      using Some by (auto simp: map_of_counter_incr occurrences_def bump_by_def)
    show ?thesis
      using Some Cons.IH [of "counter_incr a cs"] one split
      by (simp add: bump_by_bump_by occurrences_nonneg)
  qed
qed

lemma map_of_count_events:
  "map_of (count_events evs cs) k = bump_by (map_of cs k) (occurrences k (listed_competitors evs))"
proof (induction evs arbitrary: cs)
  case Nil
  show ?case by (simp add: occurrences_def bump_by_def)
next
  case (Cons ev evs)
  show ?case
  proof (cases ev)
    case Nil
    with Cons.IH show ?thesis by simp
  next
    case (Cons competitors more)
    then show ?thesis
      using Cons.IH [of "count_competitors competitors cs"]
      by (simp add: map_of_count_competitors bump_by_bump_by occurrences_nonneg occurrences_append)
  qed
qed

lemma map_of_fetch_days:
  "fetch_days fetch is cs q = (Inr cs', q') \<Longrightarrow>
     map_of cs' k = bump_by (map_of cs k) (occurrences k (listed_in_days fetch is))"
proof (induction "is" arbitrary: cs q)
  case Nil
  then show ?case by (simp add: occurrences_def bump_by_def)
next
  case (Cons i rest)
  show ?case
  proof (cases "fetch i")
    case (Inl e)
    with Cons.prems show ?thesis by simp
  next
    case (Inr events)
    with Cons.prems have "fetch_days fetch rest (count_events events cs) (q @ [i]) = (Inr cs', q')"
      by simp
    from Cons.IH [OF this] Inr show ?thesis
      by (simp add: map_of_count_events bump_by_bump_by occurrences_nonneg occurrences_append)
  qed
qed

lemma map_of_filter_keys:
  "map_of (filter (\<lambda>(k, v). P k) cs) k = (if P k then map_of cs k else None)"
  by (induction cs) auto

lemma map_of_compute:
  assumes "compute_team_games_next_n_days fetch days = (Inr cs, q)"
  shows "map_of cs k =
           (if k \<in> set NBA_TEAM_ABBREVS
            then bump_by None (occurrences k (listed_in_days fetch [0..<nat (days + 1)]))
            else None)"
proof -
  obtain cs0 where f: "fetch_days fetch [0..<nat (days + 1)] [] [] = (Inr cs0, q)"
    and cs: "cs = filter (\<lambda>(k, v). k \<in> set NBA_TEAM_ABBREVS) cs0"
    using assms by (auto simp: compute_team_games_next_n_days_def split: prod.splits sum.splits)
  from map_of_fetch_days [OF f, of k] show ?thesis
    by (simp add: cs map_of_filter_keys)
qed

subsection \<open>The invariant of the cached counts\<close>

lemma distinct_counter_incr: "distinct (map fst cs) \<Longrightarrow> distinct (map fst (counter_incr a cs))"
  by (simp add: counter_incr_def distinct_update)

lemma distinct_count_competitors:
  "distinct (map fst cs) \<Longrightarrow> distinct (map fst (count_competitors comps cs))"
  by (induction comps arbitrary: cs) (auto simp: distinct_counter_incr split: option.splits)

lemma distinct_count_events:
  "distinct (map fst cs) \<Longrightarrow> distinct (map fst (count_events evs cs))"
  by (induction evs arbitrary: cs) (auto simp: distinct_count_competitors split: list.splits)

lemma distinct_fetch_days:
  "fetch_days fetch is cs q = (Inr cs', q') \<Longrightarrow> distinct (map fst cs) \<Longrightarrow> distinct (map fst cs')"
  by (induction "is" arbitrary: cs q) (auto simp: distinct_count_events split: sum.splits)

lemma bump_by_None_pos: "0 \<le> n \<Longrightarrow> bump_by None n = Some v \<Longrightarrow> 1 \<le> v"
  by (auto simp: bump_by_def split: if_splits)

lemma compute_counts_ok:
  assumes "compute_team_games_next_n_days fetch days = (Inr cs, q)"
  shows "counts_ok cs"
proof -
  obtain cs0 where f: "fetch_days fetch [0..<nat (days + 1)] [] [] = (Inr cs0, q)"
    and cs: "cs = filter (\<lambda>(k, v). k \<in> set NBA_TEAM_ABBREVS) cs0"
    using assms by (auto simp: compute_team_games_next_n_days_def split: prod.splits sum.splits)
  have d: "distinct (map fst cs)"
    using distinct_fetch_days [OF f] by (simp add: cs distinct_map_filter)
  have "k \<in> set NBA_TEAM_ABBREVS \<and> 1 \<le> v" if kv: "(k, v) \<in> set cs" for k v
  proof -
    from kv d have m: "map_of cs k = Some v" by simp
    from kv have "k \<in> set NBA_TEAM_ABBREVS" by (auto simp: cs)
    moreover from m map_of_compute [OF assms, of k] calculation
    have "1 \<le> v" by (auto intro: bump_by_None_pos [OF occurrences_nonneg])
    ultimately show ?thesis by simp
  qed
  with d show ?thesis by (auto simp: counts_ok_def list_all_iff)
qed

lemma counts_ok_Nil: "counts_ok []"
  by (simp add: counts_ok_def)

lemma refresh_counts_ok:
  "refresh fetch now_ts days = (cs, c', q) \<Longrightarrow> counts_ok cs \<and> cache_counts c' = cs"
  by (auto simp: refresh_def counts_ok_Nil compute_counts_ok split: prod.splits sum.splits fetch_error.splits)

lemma get_team_games_cache_counts_ok:
  "counts_ok (cache_counts c) \<Longrightarrow> get_team_games_cache fetch now_ts c days ttl = (cs, c', q)
     \<Longrightarrow> counts_ok cs \<and> cache_counts c' = cs"
  by (auto simp: get_team_games_cache_def refresh_counts_ok split: if_splits)

lemma reachable_counts_ok: "reachable c \<Longrightarrow> counts_ok (cache_counts c)"
proof (induction rule: reachable.induct)
  case start
  show ?case by (simp add: TEAM_SCHEDULE_CACHE_def counts_ok_Nil)
next
  case (call c fetch now_ts days ttl)
  obtain cs c' q where g: "get_team_games_cache fetch now_ts c days ttl = (cs, c', q)"
    by (cases "get_team_games_cache fetch now_ts c days ttl") auto
  from get_team_games_cache_counts_ok [OF call.IH g] g show ?case by simp
qed

subsection \<open>Rounding and the league average\<close>

lemma py_round_bounds: "\<lfloor>x\<rfloor> \<le> py_round x \<and> py_round x \<le> \<lfloor>x\<rfloor> + 1"
  by (simp add: py_round_def Let_def)

lemma py_round_nearest: "\<bar>real_of_int (py_round x) - x\<bar> \<le> 1 / 2"
  unfolding py_round_def Let_def by (auto; linarith)

lemma sum_list_ge_length:
  "list_all (\<lambda>v. 1 \<le> v) (vs :: int list) \<Longrightarrow> int (length vs) \<le> sum_list vs"
  by (induction vs) auto

lemma mean_ge_one:
  assumes "counts_ok cs" "cs \<noteq> []"
  shows "1 \<le> real_of_int (sum_list (map snd cs)) / real (length cs)"
proof -
  have "list_all (\<lambda>v. 1 \<le> v) (map snd cs)"
    using assms(1) by (auto simp: counts_ok_def list_all_iff)
  from sum_list_ge_length [OF this] have "real (length cs) \<le> real_of_int (sum_list (map snd cs))"
    by (metis length_map of_int_le_iff of_int_of_nat_eq)
  moreover have "0 < real (length cs)" using assms(2) by simp
  ultimately show ?thesis by (simp add: le_divide_eq)
qed

lemma py_round_ge_one: "1 \<le> x \<Longrightarrow> 1 \<le> py_round x"
proof -
  assume "1 \<le> x"
  then have "1 \<le> \<lfloor>x\<rfloor>" by simp
  with py_round_bounds [of x] show ?thesis by linarith
qed

lemma normalize_team_abbrev_canonical:
  "normalize_team_abbrev raw = Some k \<Longrightarrow> k \<in> set NBA_TEAM_ABBREVS"
  by (auto simp: normalize_team_abbrev_def Let_def split: option.splits if_splits)

lemma compute_keys:
  assumes "compute_team_games_next_n_days fetch days = (Inr cs, q)"
  shows "fst ` set cs =
           {k. \<exists>comp \<in> set (listed_in_days fetch [0..<nat (days + 1)]).
                 normalize_team_abbrev comp = Some k}"
proof -
  have "k \<in> fst ` set cs \<longleftrightarrow>
          (\<exists>comp \<in> set (listed_in_days fetch [0..<nat (days + 1)]).
             normalize_team_abbrev comp = Some k)" for k
  proof -
    have "k \<in> fst ` set cs \<longleftrightarrow> map_of cs k \<noteq> None"
      by (simp add: map_of_eq_None_iff)
    also have "\<dots> \<longleftrightarrow> k \<in> set NBA_TEAM_ABBREVS
                 \<and> occurrences k (listed_in_days fetch [0..<nat (days + 1)]) \<noteq> 0"
      by (simp add: map_of_compute [OF assms] bump_by_def)
    also have "\<dots> \<longleftrightarrow> (\<exists>comp \<in> set (listed_in_days fetch [0..<nat (days + 1)]).
                             normalize_team_abbrev comp = Some k)"
      by (auto simp: occurrences_def filter_empty_conv dest: normalize_team_abbrev_canonical)
    finally show ?thesis .
  qed
  then show ?thesis by blast
qed

subsection \<open>Cache keys\<close>

text \<open>
  Claim C9. After every call of \<^verbatim>\<open>get_team_games_cache\<close> (a refresh that succeeded, a
  refresh that failed, or a hit) on a cache the process can have reached, the keys of the
  returned mapping and of the stored mapping all belong to the canonical vocabulary, which
  has 30 distinct codes. The keys of a computed mapping are exactly the normalisations of
  the listed team codes that normalise: a code that fails normalisation yields no key.
\<close>

theorem cache_keys_canonical:
  assumes "reachable c"
    and "get_team_games_cache fetch now_ts c days ttl_seconds = (cs, c', queried)"
  shows "fst ` set cs \<subseteq> set NBA_TEAM_ABBREVS
       \<and> fst ` set (cache_counts c') \<subseteq> set NBA_TEAM_ABBREVS
       \<and> length NBA_TEAM_ABBREVS = 30 \<and> distinct NBA_TEAM_ABBREVS
       \<and> (\<forall>fetch' days' cs0 q0.
            compute_team_games_next_n_days fetch' days' = (Inr cs0, q0) \<longrightarrow>
            fst ` set cs0 =
              {k. \<exists>comp \<in> set (listed_in_days fetch' [0..<nat (days' + 1)]).
                    normalize_team_abbrev comp = Some k})"
proof -
  from get_team_games_cache_counts_ok [OF reachable_counts_ok [OF assms(1)] assms(2)]
  have ok: "counts_ok cs" and same: "cache_counts c' = cs" by simp_all
  from ok have keys: "fst ` set cs \<subseteq> set NBA_TEAM_ABBREVS"
    by (auto simp: counts_ok_def list_all_iff)
  have voc: "length NBA_TEAM_ABBREVS = 30 \<and> distinct NBA_TEAM_ABBREVS"
    by (simp add: NBA_TEAM_ABBREVS_def)
  from keys same voc compute_keys show ?thesis by blast
qed

theorem cache_keys_canonical_witness:
  "reachable TEAM_SCHEDULE_CACHE
   \<and> get_team_games_cache scoreboard_one_game 1000 TEAM_SCHEDULE_CACHE 1 900 =
       ([(''GSW'', 1), (''LAL'', 1)],
        \<lparr>cache_ts = 1000, cache_days = Some 1, cache_counts = [(''GSW'', 1), (''LAL'', 1)],
         last_error = None, last_status = Some 200\<rparr>,
        [0, 1])
   \<and> fst ` set [(''GSW'', 1 :: int), (''LAL'', 1)] \<subseteq> set NBA_TEAM_ABBREVS"
proof -
  have r: "reachable TEAM_SCHEDULE_CACHE" by (rule reachable.start)
  have g: "get_team_games_cache scoreboard_one_game 1000 TEAM_SCHEDULE_CACHE 1 900 =
       ([(''GSW'', 1), (''LAL'', 1)],
        \<lparr>cache_ts = 1000, cache_days = Some 1, cache_counts = [(''GSW'', 1), (''LAL'', 1)],
         last_error = None, last_status = Some 200\<rparr>,
        [0, 1])"
    by code_simp
  from cache_keys_canonical [OF r g] r g show ?thesis by blast
qed

subsection \<open>Tier 1: the player's own schedule\<close>

lemma count_in_window_eq:
  "count_in_window parse now end_t gs k =
     k + int (length (filter (\<lambda>t. now \<le> t \<and> t \<le> end_t)
                        (List.map_filter (parse_game_datetime parse) gs)))"
  by (induction gs arbitrary: k) (auto split: option.splits)

text \<open>
  For a player whose schedule has at least one entry with a parsable date, and a window
  whose end \<open>now + windowDays\<close> is a datetime, \<^verbatim>\<open>games_next_n_days\<close> returns exactly the
  number of entries whose parsed UTC time \<open>t\<close> satisfies \<open>now \<le> t \<le> now + windowDays\<close> (both
  ends included, unparsable entries skipped), also when that number is zero; the cache is
  returned as it was and the scoreboard is not queried.
\<close>

lemma tier1_count_in_representable_window:
  assumes "schedule p = Some sched"
    and "\<exists>g \<in> set sched. parse_game_datetime fromisoformat g \<noteq> None"
    and "representable (now + days * US_PER_DAY)"
  shows "games_next_n_days fromisoformat fetch now now_ts c p days =
           (Inr (int (length (filter (\<lambda>t. now \<le> t \<and> t \<le> now + days * US_PER_DAY)
                                (List.map_filter (parse_game_datetime fromisoformat) sched)))),
            c, [])"
proof -
  from assms(1,2) have par: "schedule_has_parsable_dates fromisoformat p"
    by (auto simp: schedule_has_parsable_dates_def list_ex_iff)
  from assms(2) have ne: "sched \<noteq> []" by auto
  from assms(3) have e: "add_days now days = Inr (now + days * US_PER_DAY)"
    by (simp add: add_days_def Let_def)
  show ?thesis
    by (simp add: games_next_n_days_def par games_next_n_days_from_player_schedule_def
        assms(1) ne e count_in_window_eq)
qed

lemma tier1_count_examples:
  "schedule scheduled_player = Some example_schedule
   \<and> game_dated ''2026-11-04T00:00:00Z'' \<in> set example_schedule
   \<and> parse_game_datetime example_fromisoformat (game_dated ''2026-11-04T00:00:00Z'') = Some example_now
   \<and> representable (example_now + 7 * US_PER_DAY)
   \<and> List.map_filter (parse_game_datetime example_fromisoformat) example_schedule =
       [example_now, example_now + 2 * US_PER_DAY + 19 * US_PER_HOUR + US_PER_HOUR div 2,
        example_now + 7 * US_PER_DAY + US_PER_HOUR, example_now + 7 * US_PER_DAY,
        example_now + 8 * US_PER_DAY]
   \<and> games_next_n_days example_fromisoformat scoreboard_down example_now 1000 warm_cache
        scheduled_player 7 = (Inr 3, warm_cache, [])
   \<and> games_next_n_days example_fromisoformat scoreboard_down example_now 1000 warm_cache
        bye_player 7 = (Inr 0, warm_cache, [])"
proof -
  have s: "schedule scheduled_player = Some example_schedule"
    by (simp add: scheduled_player_def)
  have m: "game_dated ''2026-11-04T00:00:00Z'' \<in> set example_schedule"
    by (simp add: example_schedule_def)
  have p: "parse_game_datetime example_fromisoformat (game_dated ''2026-11-04T00:00:00Z'') = Some example_now"
    by code_simp
  have r: "representable (example_now + 7 * US_PER_DAY)"
    by code_simp
  have l: "List.map_filter (parse_game_datetime example_fromisoformat) example_schedule =
       [example_now, example_now + 2 * US_PER_DAY + 19 * US_PER_HOUR + US_PER_HOUR div 2,
        example_now + 7 * US_PER_DAY + US_PER_HOUR, example_now + 7 * US_PER_DAY,
        example_now + 8 * US_PER_DAY]"
    by code_simp
  have e: "\<exists>g \<in> set example_schedule. parse_game_datetime example_fromisoformat g \<noteq> None"
    using m p by force
  have c: "int (length (filter (\<lambda>t. example_now \<le> t \<and> t \<le> example_now + 7 * US_PER_DAY)
             (List.map_filter (parse_game_datetime example_fromisoformat) example_schedule))) = 3"
    unfolding l by (simp add: US_PER_DAY_def US_PER_HOUR_def example_now_def)
  have sb: "schedule bye_player = Some [game_dated ''2026-11-12T00:00:00Z'']"
    by (simp add: bye_player_def)
  have pb: "parse_game_datetime example_fromisoformat (game_dated ''2026-11-12T00:00:00Z'')
              = Some (example_now + 8 * US_PER_DAY)"
    by code_simp
  have eb: "\<exists>g \<in> set [game_dated ''2026-11-12T00:00:00Z'']. parse_game_datetime example_fromisoformat g \<noteq> None"
    using pb by simp
  have cb: "int (length (filter (\<lambda>t. example_now \<le> t \<and> t \<le> example_now + 7 * US_PER_DAY)
             (List.map_filter (parse_game_datetime example_fromisoformat) [game_dated ''2026-11-12T00:00:00Z'']))) = 0"
    by (simp add: pb US_PER_DAY_def)
  show ?thesis
    using tier1_count_in_representable_window [OF s e r, of scoreboard_down 1000 warm_cache]
      tier1_count_in_representable_window [OF sb eb r, of scoreboard_down 1000 warm_cache]
      s m p r l
    unfolding c cb by simp
qed

text \<open>
  Claim C3 says that \<^verbatim>\<open>games_next_n_days\<close> returns the count for every player whose schedule
  has a parsable entry. At a concrete input: the only entry of the schedule is parsable and
  lies eight days from now, the window is 3000000 days, so the time of the entry lies
  between \<open>now\<close> and \<open>now + windowDays\<close> and the count of the claim is 1. The end of the
  window is after year 9999: computing it raises \<^verbatim>\<open>OverflowError\<close> and no count is
  returned.
\<close>

theorem tier1_count_lost_to_overflow:
  "schedule bye_player = Some [game_dated ''2026-11-12T00:00:00Z'']
   \<and> parse_game_datetime example_fromisoformat (game_dated ''2026-11-12T00:00:00Z'') =
       Some (example_now + 8 * US_PER_DAY)
   \<and> example_now \<le> example_now + 8 * US_PER_DAY
   \<and> example_now + 8 * US_PER_DAY \<le> example_now + 3000000 * US_PER_DAY
   \<and> games_next_n_days example_fromisoformat scoreboard_down example_now 1000
        TEAM_SCHEDULE_CACHE bye_player 3000000 =
       (Inl OverflowError, TEAM_SCHEDULE_CACHE, [])"
  by code_simp

subsection \<open>Projection\<close>

text \<open>
  Claim C2. The rate \<open>r\<close> is the provider's projected per-game average when it is present
  and numeric, else the historical per-game average, a missing one counting as 0. With
  \<open>g\<close> the result of \<^verbatim>\<open>games_next_n_days\<close>: the projection is exactly 0 when \<open>g = 0\<close> and
  the player's schedule has a parsable date; else it is \<open>r\<close> when \<open>g \<le> 0\<close>; else \<open>r * g\<close>.
\<close>

theorem three_way_projection:
  assumes "games_next_n_days fromisoformat fetch now now_ts c p days = (Inr g, c', queried)"
    and "r = (case projected_avg_points p of
                Numeric v \<Rightarrow> v
              | Absent \<Rightarrow> (case avg_points p of None \<Rightarrow> 0 | Some a \<Rightarrow> a)
              | NonNumeric \<Rightarrow> (case avg_points p of None \<Rightarrow> 0 | Some a \<Rightarrow> a))"
  shows "get_points_per_game p = r
       \<and> projected_points_next_n_days fromisoformat fetch now now_ts c p days =
           (Inr (if g = 0 \<and> (\<exists>sched. schedule p = Some sched
                                \<and> (\<exists>e \<in> set sched. parse_game_datetime fromisoformat e \<noteq> None))
                 then 0
                 else if g \<le> 0 then r
                 else r * real_of_int g),
            c', queried)"
proof -
  have rate: "get_points_per_game p = r"
    by (simp add: get_points_per_game_def assms(2) split: attr_value.splits)
  have par: "schedule_has_parsable_dates fromisoformat p \<longleftrightarrow>
               (\<exists>sched. schedule p = Some sched
                  \<and> (\<exists>e \<in> set sched. parse_game_datetime fromisoformat e \<noteq> None))"
    by (auto simp: schedule_has_parsable_dates_def list_ex_iff split: option.splits)
  show ?thesis
    unfolding par [symmetric]
    using assms(1) rate by (simp add: projected_points_next_n_days_def)
qed

theorem three_way_projection_witness:
  "projected_points_next_n_days example_fromisoformat scoreboard_down example_now 1000
     TEAM_SCHEDULE_CACHE scheduled_player 7 = (Inr 30, TEAM_SCHEDULE_CACHE, [])
   \<and> projected_points_next_n_days example_fromisoformat scoreboard_down example_now 1000
     TEAM_SCHEDULE_CACHE bye_player 7 = (Inr 0, TEAM_SCHEDULE_CACHE, [])
   \<and> projected_points_next_n_days example_fromisoformat scoreboard_down example_now 1000
     TEAM_SCHEDULE_CACHE (team_player ''CHI'') 7 = (Inr 10, cache_after_failure, [0])"
proof -
  have g1: "games_next_n_days example_fromisoformat scoreboard_down example_now 1000
     TEAM_SCHEDULE_CACHE scheduled_player 7 = (Inr 3, TEAM_SCHEDULE_CACHE, [])"
    by code_simp
  have r1: "(10 :: real) = (case projected_avg_points scheduled_player of
                Numeric v \<Rightarrow> v
              | Absent \<Rightarrow> (case avg_points scheduled_player of None \<Rightarrow> 0 | Some a \<Rightarrow> a)
              | NonNumeric \<Rightarrow> (case avg_points scheduled_player of None \<Rightarrow> 0 | Some a \<Rightarrow> a))"
    by (simp add: scheduled_player_def example_player_def)
  have g2: "games_next_n_days example_fromisoformat scoreboard_down example_now 1000
     TEAM_SCHEDULE_CACHE bye_player 7 = (Inr 0, TEAM_SCHEDULE_CACHE, [])"
    by code_simp
  have r2: "(10 :: real) = (case projected_avg_points bye_player of
                Numeric v \<Rightarrow> v
              | Absent \<Rightarrow> (case avg_points bye_player of None \<Rightarrow> 0 | Some a \<Rightarrow> a)
              | NonNumeric \<Rightarrow> (case avg_points bye_player of None \<Rightarrow> 0 | Some a \<Rightarrow> a))"
    by (simp add: bye_player_def example_player_def)
  have p2: "parse_game_datetime example_fromisoformat (game_dated ''2026-11-12T00:00:00Z'') \<noteq> None"
    by code_simp
  have s2: "schedule bye_player = Some [game_dated ''2026-11-12T00:00:00Z'']"
    by (simp add: bye_player_def)
  have g3: "games_next_n_days example_fromisoformat scoreboard_down example_now 1000
     TEAM_SCHEDULE_CACHE (team_player ''CHI'') 7 = (Inr 0, cache_after_failure, [0])"
    by code_simp
  have r3: "(10 :: real) = (case projected_avg_points (team_player ''CHI'') of
                Numeric v \<Rightarrow> v
              | Absent \<Rightarrow> (case avg_points (team_player ''CHI'') of None \<Rightarrow> 0 | Some a \<Rightarrow> a)
              | NonNumeric \<Rightarrow> (case avg_points (team_player ''CHI'') of None \<Rightarrow> 0 | Some a \<Rightarrow> a))"
    by (simp add: team_player_def example_player_def)
  have s3: "schedule (team_player ''CHI'') = None"
    by (simp add: team_player_def example_player_def)
  show ?thesis
    using three_way_projection [OF g1 r1] three_way_projection [OF g2 r2]
      three_way_projection [OF g3 r3] p2 s2 s3
    by simp
qed

subsection \<open>Tier 3: the league average\<close>

lemma py_round_closest: "\<bar>real_of_int (py_round x) - x\<bar> \<le> \<bar>real_of_int k - x\<bar>"
proof (cases "k = py_round x")
  case True
  then show ?thesis by simp
next
  case False
  then have "1 \<le> \<bar>k - py_round x\<bar>" by linarith
  then have "real_of_int 1 \<le> real_of_int \<bar>k - py_round x\<bar>"
    by (simp only: of_int_le_iff)
  then have "1 \<le> \<bar>real_of_int k - real_of_int (py_round x)\<bar>" by simp
  with py_round_nearest [of x] show ?thesis by linarith
qed

text \<open>
  Claim C5. For a player without a parsable schedule whose team code normalises to a
  canonical code that is absent from a non-empty mapping returned by the cache,
  \<^verbatim>\<open>games_next_n_days\<close> returns the arithmetic mean of the counts in the mapping, rounded to
  an integer that no other integer is nearer to the mean than.
\<close>

theorem league_average_estimate:
  assumes "\<not> schedule_has_parsable_dates fromisoformat p"
    and "normalize_team_abbrev (proTeam p) = Some team"
    and "get_team_games_cache fetch now_ts c days 900 = (cs, c', queried)"
    and "cs \<noteq> []"
    and "team \<notin> fst ` set cs"
    and "mean = real_of_int (sum_list (map snd cs)) / real (length cs)"
  shows "games_next_n_days fromisoformat fetch now now_ts c p days =
           (Inr (py_round mean), c', queried)
       \<and> (\<forall>k :: int. \<bar>real_of_int (py_round mean) - mean\<bar> \<le> \<bar>real_of_int k - mean\<bar>)"
proof -
  from assms(5) have "map_of cs team = None"
    by (simp add: map_of_eq_None_iff)
  then have "games_next_n_days fromisoformat fetch now now_ts c p days =
           (Inr (py_round mean), c', queried)"
    using assms(1,2,3,4,6) by (simp add: games_next_n_days_def Let_def)
  then show ?thesis using py_round_closest by blast
qed

theorem league_average_estimate_witness:
  "\<not> schedule_has_parsable_dates example_fromisoformat (team_player ''CHI'')
   \<and> normalize_team_abbrev (proTeam (team_player ''CHI'')) = Some ''CHI''
   \<and> get_team_games_cache scoreboard_down 1001 warm_cache 7 900 =
       ([(''ATL'', 5), (''BOS'', 7)], warm_cache, [])
   \<and> ''CHI'' \<notin> fst ` set [(''ATL'', 5 :: int), (''BOS'', 7)]
   \<and> games_next_n_days example_fromisoformat scoreboard_down example_now 1001 warm_cache
        (team_player ''CHI'') 7 = (Inr 6, warm_cache, [])"
proof -
  have a: "\<not> schedule_has_parsable_dates example_fromisoformat (team_player ''CHI'')"
    by (simp add: schedule_has_parsable_dates_def team_player_def example_player_def)
  have b: "normalize_team_abbrev (proTeam (team_player ''CHI'')) = Some ''CHI''"
    by code_simp
  have g: "get_team_games_cache scoreboard_down 1001 warm_cache 7 900 =
       ([(''ATL'', 5), (''BOS'', 7)], warm_cache, [])"
    by (simp add: get_team_games_cache_def cache_ok_def warm_cache_def)
  have n: "[(''ATL'', 5 :: int), (''BOS'', 7)] \<noteq> []" by simp
  have d: "''CHI'' \<notin> fst ` set [(''ATL'', 5 :: int), (''BOS'', 7)]" by simp
  have m: "(6 :: real) = real_of_int (sum_list (map snd [(''ATL'', 5 :: int), (''BOS'', 7)]))
             / real (length [(''ATL'', 5 :: int), (''BOS'', 7)])"
    by simp
  have r: "py_round 6 = 6" by (simp add: py_round_def)
  from league_average_estimate [OF a b g n d m, of example_now] a b g d r
  show ?thesis by simp
qed

subsection \<open>Cache hits and failed refreshes\<close>

lemma fetch_days_queried_nonempty:
  "queried \<noteq> [] \<or> days_left \<noteq> [] \<Longrightarrow> snd (fetch_days fetch days_left cs queried) \<noteq> []"
  by (induction days_left arbitrary: cs queried) (auto split: sum.splits)

lemma refresh_queries:
  assumes "0 \<le> days"
  shows "snd (snd (refresh fetch now_ts days)) \<noteq> []"
proof -
  from assms have "[0..<nat (days + 1)] \<noteq> []" by simp
  then have "snd (fetch_days fetch [0..<nat (days + 1)] [] []) \<noteq> []"
    using fetch_days_queried_nonempty by blast
  then have "snd (compute_team_games_next_n_days fetch days) \<noteq> []"
    by (auto simp: compute_team_games_next_n_days_def split: prod.splits sum.splits)
  then show ?thesis
    by (auto simp: refresh_def split: prod.splits sum.splits fetch_error.splits)
qed

lemma refresh_failed:
  assumes "fst (compute_team_games_next_n_days fetch days) = Inl e"
  shows "fst (refresh fetch now_ts days) = []
       \<and> cache_counts (fst (snd (refresh fetch now_ts days))) = []
       \<and> cache_ts (fst (snd (refresh fetch now_ts days))) = now_ts
       \<and> cache_days (fst (snd (refresh fetch now_ts days))) = Some days
       \<and> last_error (fst (snd (refresh fetch now_ts days))) \<noteq> None"
  using assms by (auto simp: refresh_def split: prod.splits sum.splits fetch_error.splits)

text \<open>
  Claim C1 says that a failed refresh is not retried within the TTL. At a concrete input:
  the refresh at time 1000 for a 7-day window failed, leaving empty counts with the
  timestamp and the window stored. The next call, one second later and well within the
  900 seconds, with the same window, queries the scoreboard again.
\<close>

theorem failed_refresh_is_retried:
  "cache_counts cache_after_failure = []
   \<and> cache_ts cache_after_failure = 1000
   \<and> cache_days cache_after_failure = Some 7
   \<and> 1001 - cache_ts cache_after_failure < real_of_int 900
   \<and> snd (snd (get_team_games_cache scoreboard_down 1001 cache_after_failure 7 900)) = [0]"
  by code_simp

text \<open>
  Claim C1, amended. When the cached window equals the requested one, less than
  \<open>ttl_seconds\<close> have passed since the last refresh and the cached mapping is not empty,
  the call returns the cached mapping, leaves the cache as it was and queries nothing.
  A refresh that fails stores empty counts, the time and the window together with the
  error; since an empty mapping never makes the cache valid, every later call, whatever
  the time and the TTL, runs a refresh again, and for a window of at least 0 days that
  refresh queries the scoreboard.
\<close>

theorem cache_hit_and_retry_after_failure:
  "(cache_days c = Some days \<and> now_ts - cache_ts c < real_of_int ttl_seconds
      \<and> cache_counts c \<noteq> []
      \<longrightarrow> get_team_games_cache fetch now_ts c days ttl_seconds = (cache_counts c, c, []))
   \<and> (fst (compute_team_games_next_n_days fetch0 days) = Inl e \<and> c1 = fst (snd (refresh fetch0 t0 days))
      \<longrightarrow> cache_counts c1 = [] \<and> cache_ts c1 = t0 \<and> cache_days c1 = Some days
          \<and> last_error c1 \<noteq> None
          \<and> get_team_games_cache fetch now_ts c1 days ttl_seconds = refresh fetch now_ts days
          \<and> (0 \<le> days \<longrightarrow> snd (snd (get_team_games_cache fetch now_ts c1 days ttl_seconds)) \<noteq> []))"
proof -
  have hit: "get_team_games_cache fetch now_ts c days ttl_seconds = (cache_counts c, c, [])"
    if "cache_days c = Some days \<and> now_ts - cache_ts c < real_of_int ttl_seconds
          \<and> cache_counts c \<noteq> []"
    using that by (simp add: get_team_games_cache_def cache_ok_def)
  have miss: "cache_counts c1 = [] \<and> cache_ts c1 = t0 \<and> cache_days c1 = Some days
          \<and> last_error c1 \<noteq> None
          \<and> get_team_games_cache fetch now_ts c1 days ttl_seconds = refresh fetch now_ts days
          \<and> (0 \<le> days \<longrightarrow> snd (snd (get_team_games_cache fetch now_ts c1 days ttl_seconds)) \<noteq> [])"
    if f: "fst (compute_team_games_next_n_days fetch0 days) = Inl e"
      and c1: "c1 = fst (snd (refresh fetch0 t0 days))"
  proof -
    from refresh_failed [OF f, of t0] c1
    have st: "cache_counts c1 = []" "cache_ts c1 = t0" "cache_days c1 = Some days"
      "last_error c1 \<noteq> None" by simp_all
    from st(1) have again: "get_team_games_cache fetch now_ts c1 days ttl_seconds = refresh fetch now_ts days"
      by (simp add: get_team_games_cache_def cache_ok_def)
    from st again refresh_queries [of days fetch now_ts] show ?thesis by simp
  qed
  from hit miss show ?thesis by blast
qed

theorem cache_hit_and_retry_after_failure_witness:
  "get_team_games_cache scoreboard_down 1899 warm_cache 7 900 =
     ([(''ATL'', 5), (''BOS'', 7)], warm_cache, [])
   \<and> fst (compute_team_games_next_n_days scoreboard_down 7) = Inl (URLError ''timed out'')
   \<and> get_team_games_cache scoreboard_one_game 1001 cache_after_failure 7 900 =
       refresh scoreboard_one_game 1001 7
   \<and> snd (snd (get_team_games_cache scoreboard_one_game 1001 cache_after_failure 7 900)) \<noteq> []"
proof -
  have h: "cache_days warm_cache = Some 7 \<and> 1899 - cache_ts warm_cache < real_of_int 900
      \<and> cache_counts warm_cache \<noteq> []"
    by (simp add: warm_cache_def)
  have w: "cache_counts warm_cache = [(''ATL'', 5), (''BOS'', 7)]"
    by (simp add: warm_cache_def)
  have f: "fst (compute_team_games_next_n_days scoreboard_down 7) = Inl (URLError ''timed out'')"
    by code_simp
  have d: "(0 :: int) \<le> 7" by simp
  have c1: "cache_after_failure = fst (snd (refresh scoreboard_down 1000 7))"
    by (simp add: cache_after_failure_def)
  from cache_hit_and_retry_after_failure
         [of warm_cache 7 1899 900 scoreboard_down scoreboard_down "URLError ''timed out''"
            cache_after_failure 1000] h w
  have a: "get_team_games_cache scoreboard_down 1899 warm_cache 7 900 =
     ([(''ATL'', 5), (''BOS'', 7)], warm_cache, [])"
    by simp
  from cache_hit_and_retry_after_failure
         [of warm_cache 7 1001 900 scoreboard_one_game scoreboard_down "URLError ''timed out''"
            cache_after_failure 1000] f c1 d
  have b: "get_team_games_cache scoreboard_one_game 1001 cache_after_failure 7 900 =
       refresh scoreboard_one_game 1001 7
     \<and> snd (snd (get_team_games_cache scoreboard_one_game 1001 cache_after_failure 7 900)) \<noteq> []"
    by blast
  from a b f show ?thesis by blast
qed

subsection \<open>Positive counts and the tiers that read the cache\<close>

lemma counts_ok_value: "counts_ok cs \<Longrightarrow> map_of cs k = Some v \<Longrightarrow> 1 \<le> v"
  by (auto simp: counts_ok_def list_all_iff dest: map_of_SomeD)

lemma games_next_n_days_cache_tiers:
  assumes "\<not> schedule_has_parsable_dates fromisoformat p"
    and "normalize_team_abbrev (proTeam p) = Some team"
    and "get_team_games_cache fetch now_ts c days 900 = (cs, c', queried)"
  shows "games_next_n_days fromisoformat fetch now now_ts c p days =
           (Inr (case map_of cs team of
                   Some v \<Rightarrow> v
                 | None \<Rightarrow>
                     if cs \<noteq> []
                     then py_round (real_of_int (sum_list (map snd cs)) / real (length cs))
                     else 0),
            c', queried)"
  using assms by (simp add: games_next_n_days_def Let_def split: option.splits)

text \<open>
  Claim C10 says that a team without a game in the window gets the league-average estimate
  rather than 0. At a concrete input: the refresh succeeds (status 200) but no game is
  listed on any of the eight days, so the mapping is empty and a Lakers player without a
  schedule gets 0.
\<close>

theorem no_games_at_all_gives_zero:
  "normalize_team_abbrev (proTeam (team_player ''LAL'')) = Some ''LAL''
   \<and> games_next_n_days example_fromisoformat scoreboard_no_games example_now 1000
        TEAM_SCHEDULE_CACHE (team_player ''LAL'') 7 =
       (Inr 0,
        \<lparr>cache_ts = 1000, cache_days = Some 7, cache_counts = [], last_error = None,
         last_status = Some 200\<rparr>,
        [0, 1, 2, 3, 4, 5, 6, 7])"
  by code_simp

text \<open>
  Claim C10, amended. In a mapping the cache returns, every value is at least 1; a mapping
  computed by a refresh holds, for each canonical code, the number of times the code was
  listed, and no key for a code listed zero times. Hence for a player without a parsable
  schedule and with a canonical team: a team found in the mapping gets its count, at
  least 1; a team absent from a non-empty mapping gets the rounded league average, at
  least 1; a team absent because the mapping is empty (a failed refresh, or no game listed
  at all) gets 0.
\<close>

theorem positive_counts_and_estimate:
  assumes "reachable c"
    and "\<not> schedule_has_parsable_dates fromisoformat p"
    and "normalize_team_abbrev (proTeam p) = Some team"
    and "get_team_games_cache fetch now_ts c days 900 = (cs, c', queried)"
  shows "list_all (\<lambda>(k, v). 1 \<le> v) cs
       \<and> (\<forall>fetch' days' cs0 q0 k.
            compute_team_games_next_n_days fetch' days' = (Inr cs0, q0) \<longrightarrow>
            map_of cs0 k =
              (if k \<in> set NBA_TEAM_ABBREVS
                  \<and> 0 < occurrences k (listed_in_days fetch' [0..<nat (days' + 1)])
               then Some (occurrences k (listed_in_days fetch' [0..<nat (days' + 1)]))
               else None))
       \<and> (\<forall>v. map_of cs team = Some v \<longrightarrow>
            1 \<le> v \<and> games_next_n_days fromisoformat fetch now now_ts c p days = (Inr v, c', queried))
       \<and> (team \<notin> fst ` set cs \<and> cs \<noteq> [] \<longrightarrow>
            1 \<le> py_round (real_of_int (sum_list (map snd cs)) / real (length cs))
            \<and> games_next_n_days fromisoformat fetch now now_ts c p days =
                (Inr (py_round (real_of_int (sum_list (map snd cs)) / real (length cs))),
                 c', queried))
       \<and> (cs = [] \<longrightarrow>
            games_next_n_days fromisoformat fetch now now_ts c p days = (Inr 0, c', queried))"
proof -
  from get_team_games_cache_counts_ok [OF reachable_counts_ok [OF assms(1)] assms(4)]
  have ok: "counts_ok cs" by simp
  then have vals: "list_all (\<lambda>(k, v). 1 \<le> v) cs"
    by (auto simp: counts_ok_def list_all_iff)
  have comp: "map_of cs0 k =
              (if k \<in> set NBA_TEAM_ABBREVS
                  \<and> 0 < occurrences k (listed_in_days fetch' [0..<nat (days' + 1)])
               then Some (occurrences k (listed_in_days fetch' [0..<nat (days' + 1)]))
               else None)"
    if "compute_team_games_next_n_days fetch' days' = (Inr cs0, q0)" for fetch' days' cs0 q0 k
    using map_of_compute [OF that, of k] occurrences_nonneg [of k "listed_in_days fetch' [0..<nat (days' + 1)]"]
    by (auto simp: bump_by_def)
  note tiers = games_next_n_days_cache_tiers [OF assms(2,3,4), of now]
  have found: "1 \<le> v \<and> games_next_n_days fromisoformat fetch now now_ts c p days = (Inr v, c', queried)"
    if "map_of cs team = Some v" for v
    using that tiers counts_ok_value [OF ok that] by simp
  have absent: "1 \<le> py_round (real_of_int (sum_list (map snd cs)) / real (length cs))
            \<and> games_next_n_days fromisoformat fetch now now_ts c p days =
                (Inr (py_round (real_of_int (sum_list (map snd cs)) / real (length cs))),
                 c', queried)"
    if "team \<notin> fst ` set cs \<and> cs \<noteq> []"
  proof -
    from that have "map_of cs team = None" by (simp add: map_of_eq_None_iff)
    with that tiers py_round_ge_one [OF mean_ge_one [OF ok]] show ?thesis by simp
  qed
  have empty: "games_next_n_days fromisoformat fetch now now_ts c p days = (Inr 0, c', queried)"
    if "cs = []"
    using that tiers by simp
  from vals comp found absent empty show ?thesis by blast
qed

theorem positive_counts_and_estimate_witness:
  "reachable TEAM_SCHEDULE_CACHE
   \<and> get_team_games_cache scoreboard_one_game 1000 TEAM_SCHEDULE_CACHE 1 900 =
       ([(''GSW'', 1), (''LAL'', 1)],
        \<lparr>cache_ts = 1000, cache_days = Some 1, cache_counts = [(''GSW'', 1), (''LAL'', 1)],
         last_error = None, last_status = Some 200\<rparr>,
        [0, 1])
   \<and> fst (games_next_n_days example_fromisoformat scoreboard_one_game example_now 1000
        TEAM_SCHEDULE_CACHE (team_player ''LAL'') 1) = Inr 1
   \<and> py_round (real_of_int (sum_list (map snd [(''GSW'', 1 :: int), (''LAL'', 1)]))
        / real (length [(''GSW'', 1 :: int), (''LAL'', 1)])) = 1
   \<and> fst (games_next_n_days example_fromisoformat scoreboard_one_game example_now 1000
        TEAM_SCHEDULE_CACHE (team_player ''CHI'') 1) = Inr 1
   \<and> fst (games_next_n_days example_fromisoformat scoreboard_down example_now 1000
        TEAM_SCHEDULE_CACHE (team_player ''CHI'') 1) = Inr 0"
proof -
  have r: "reachable TEAM_SCHEDULE_CACHE" by (rule reachable.start)
  have n1: "\<not> schedule_has_parsable_dates example_fromisoformat (team_player ''LAL'')"
    by (simp add: schedule_has_parsable_dates_def team_player_def example_player_def)
  have t1: "normalize_team_abbrev (proTeam (team_player ''LAL'')) = Some ''LAL''"
    by code_simp
  have n2: "\<not> schedule_has_parsable_dates example_fromisoformat (team_player ''CHI'')"
    by (simp add: schedule_has_parsable_dates_def team_player_def example_player_def)
  have t2: "normalize_team_abbrev (proTeam (team_player ''CHI'')) = Some ''CHI''"
    by code_simp
  have g: "get_team_games_cache scoreboard_one_game 1000 TEAM_SCHEDULE_CACHE 1 900 =
       ([(''GSW'', 1), (''LAL'', 1)],
        \<lparr>cache_ts = 1000, cache_days = Some 1, cache_counts = [(''GSW'', 1), (''LAL'', 1)],
         last_error = None, last_status = Some 200\<rparr>,
        [0, 1])"
    by code_simp
  have gd: "get_team_games_cache scoreboard_down 1000 TEAM_SCHEDULE_CACHE 1 900 =
       ([],
        \<lparr>cache_ts = 1000, cache_days = Some 1, cache_counts = [],
         last_error = Some ''URLError: timed out'', last_status = None\<rparr>,
        [0])"
    by code_simp
  have m: "py_round (real_of_int (sum_list (map snd [(''GSW'', 1 :: int), (''LAL'', 1)]))
        / real (length [(''GSW'', 1 :: int), (''LAL'', 1)])) = 1"
    by (simp add: py_round_def)
  have f1: "map_of [(''GSW'', 1 :: int), (''LAL'', 1)] ''LAL'' = Some 1" by simp
  have a2: "''CHI'' \<notin> fst ` set [(''GSW'', 1 :: int), (''LAL'', 1)]
             \<and> [(''GSW'', 1 :: int), (''LAL'', 1)] \<noteq> []" by simp
  from positive_counts_and_estimate [OF r n1 t1 g, of example_now] f1
  have w1: "fst (games_next_n_days example_fromisoformat scoreboard_one_game example_now 1000
        TEAM_SCHEDULE_CACHE (team_player ''LAL'') 1) = Inr 1"
    by simp
  from positive_counts_and_estimate [OF r n2 t2 g, of example_now] a2
  have w2: "fst (games_next_n_days example_fromisoformat scoreboard_one_game example_now 1000
        TEAM_SCHEDULE_CACHE (team_player ''CHI'') 1) = Inr 1"
    unfolding m by simp
  from positive_counts_and_estimate [OF r n2 t2 gd, of example_now]
  have w3: "fst (games_next_n_days example_fromisoformat scoreboard_down example_now 1000
        TEAM_SCHEDULE_CACHE (team_player ''CHI'') 1) = Inr 0"
    by simp
  from r g m w1 w2 w3 show ?thesis by blast
qed

subsection \<open>Signs of the results\<close>

lemma games_next_n_days_nonneg:
  assumes "counts_ok (cache_counts c)"
    and "games_next_n_days fromisoformat fetch now now_ts c p days = (Inr g, c', queried)"
  shows "0 \<le> g"
proof (cases "schedule_has_parsable_dates fromisoformat p")
  case True
  with assms(2) have "games_next_n_days_from_player_schedule fromisoformat now p days = Inr g"
    by (simp add: games_next_n_days_def)
  then show ?thesis
    by (auto simp: games_next_n_days_from_player_schedule_def count_in_window_eq
        split: option.splits if_splits sum.splits)
next
  case False
  show ?thesis
  proof (cases "normalize_team_abbrev (proTeam p)")
    case None
    with False assms(2) show ?thesis by (simp add: games_next_n_days_def)
  next
    case (Some team)
    obtain cs c1 q1 where g: "get_team_games_cache fetch now_ts c days 900 = (cs, c1, q1)"
      by (cases "get_team_games_cache fetch now_ts c days 900") auto
    from get_team_games_cache_counts_ok [OF assms(1) g] have ok: "counts_ok cs" by simp
    from games_next_n_days_cache_tiers [OF False Some g, of now] assms(2)
    have val: "g = (case map_of cs team of
                   Some v \<Rightarrow> v
                 | None \<Rightarrow>
                     if cs \<noteq> []
                     then py_round (real_of_int (sum_list (map snd cs)) / real (length cs))
                     else 0)"
      by simp
    show ?thesis
    proof (cases "map_of cs team")
      case None
      with val py_round_ge_one [OF mean_ge_one [OF ok]] show ?thesis
        by (cases "cs = []") auto
    next
      case (Some v)
      with val counts_ok_value [OF ok Some] show ?thesis by simp
    qed
  qed
qed

text \<open>
  Claim C8 says that the projection is never below zero. At a concrete input: a player
  without schedule or team whose historical average is \<open>- 1\<close> is projected at \<open>- 1\<close>.
\<close>

theorem negative_rate_negative_projection:
  "fst (projected_points_next_n_days example_fromisoformat scoreboard_down example_now 1000
          TEAM_SCHEDULE_CACHE negative_rate_player 7) = Inr (- 1)"
  by code_simp

text \<open>
  Claim C8, amended. On every cache the process can have reached, a game count that
  \<^verbatim>\<open>games_next_n_days\<close> returns is at least 0, and a projection that
  \<^verbatim>\<open>projected_points_next_n_days\<close> returns is at least 0 whenever the rate of the player is.
\<close>

theorem nonnegative_outputs:
  assumes "reachable c"
  shows "(games_next_n_days fromisoformat fetch now now_ts c p days = (Inr g, c', queried)
            \<longrightarrow> 0 \<le> g)
       \<and> (projected_points_next_n_days fromisoformat fetch now now_ts c p days = (Inr v, c'', queried')
            \<and> 0 \<le> get_points_per_game p
            \<longrightarrow> 0 \<le> v)"
proof -
  note ok = reachable_counts_ok [OF assms]
  have games: "0 \<le> g"
    if "games_next_n_days fromisoformat fetch now now_ts c p days = (Inr g, c', queried)"
    using games_next_n_days_nonneg [OF ok that] .
  have proj: "0 \<le> v"
    if pv: "projected_points_next_n_days fromisoformat fetch now now_ts c p days = (Inr v, c'', queried')"
      and rate: "0 \<le> get_points_per_game p"
  proof -
    obtain r c1 q1 where gg: "games_next_n_days fromisoformat fetch now now_ts c p days = (r, c1, q1)"
      by (cases "games_next_n_days fromisoformat fetch now now_ts c p days") auto
    show ?thesis
    proof (cases r)
      case (Inl e)
      with gg pv show ?thesis by (simp add: projected_points_next_n_days_def)
    next
      case (Inr g0)
      with gg games_next_n_days_nonneg [OF ok] have "0 \<le> g0" by blast
      with gg Inr pv rate show ?thesis
        by (auto simp: projected_points_next_n_days_def Let_def split: if_splits)
    qed
  qed
  from games proj show ?thesis by blast
qed

theorem nonnegative_outputs_witness:
  "reachable TEAM_SCHEDULE_CACHE
   \<and> games_next_n_days example_fromisoformat scoreboard_down example_now 1000
        TEAM_SCHEDULE_CACHE scheduled_player 7 = (Inr 3, TEAM_SCHEDULE_CACHE, [])
   \<and> projected_points_next_n_days example_fromisoformat scoreboard_down example_now 1000
        TEAM_SCHEDULE_CACHE scheduled_player 7 = (Inr 30, TEAM_SCHEDULE_CACHE, [])
   \<and> (0 :: real) \<le> get_points_per_game scheduled_player
   \<and> (0 :: int) \<le> 3 \<and> (0 :: real) \<le> 30"
proof -
  have r: "reachable TEAM_SCHEDULE_CACHE" by (rule reachable.start)
  have g: "games_next_n_days example_fromisoformat scoreboard_down example_now 1000
        TEAM_SCHEDULE_CACHE scheduled_player 7 = (Inr 3, TEAM_SCHEDULE_CACHE, [])"
    by code_simp
  have v: "projected_points_next_n_days example_fromisoformat scoreboard_down example_now 1000
        TEAM_SCHEDULE_CACHE scheduled_player 7 = (Inr 30, TEAM_SCHEDULE_CACHE, [])"
    by code_simp
  have p: "(0 :: real) \<le> get_points_per_game scheduled_player"
    by (simp add: get_points_per_game_def scheduled_player_def example_player_def)
  have a: "(0 :: int) \<le> 3"
    by (rule nonnegative_outputs [OF r, THEN conjunct1, THEN mp, OF g])
  have b: "(0 :: real) \<le> 30"
    by (rule nonnegative_outputs [OF r, THEN conjunct2, THEN mp, OF conjI [OF v p]])
  from r g v p a b show ?thesis by blast
qed

subsection \<open>Drop candidates\<close>





subsection \<open>The greedy matching\<close>

lemma match_drop_first:
  assumes "match_drop pts fa dc = Some r"
  shows "\<exists>before after.
           dc = before @ rec_drop r # after
           \<and> (\<forall>dp \<in> set before. \<not> pts dp < pts fa)
           \<and> pts (rec_drop r) < pts fa
           \<and> rec_add r = fa
           \<and> expected_gain_next_n_days r = pts fa - pts (rec_drop r)"
  using assms
proof (induction dc)
  case Nil
  then show ?case by simp
next
  case (Cons dp rest)
  show ?case
  proof (cases "pts fa - pts dp > 0")
    case True
    with Cons.prems
    have "r = \<lparr>rec_add = fa, rec_drop = dp, expected_gain_next_n_days = pts fa - pts dp\<rparr>"
      by (simp add: Let_def)
    with True have "dp # rest = [] @ rec_drop r # rest
           \<and> (\<forall>x \<in> set []. \<not> pts x < pts fa)
           \<and> pts (rec_drop r) < pts fa
           \<and> rec_add r = fa
           \<and> expected_gain_next_n_days r = pts fa - pts (rec_drop r)"
      by simp
    then show ?thesis by blast
  next
    case False
    with Cons.prems have "match_drop pts fa rest = Some r" by (simp add: Let_def)
    from Cons.IH [OF this] obtain before after where
      h: "rest = before @ rec_drop r # after" "\<forall>x \<in> set before. \<not> pts x < pts fa"
         "pts (rec_drop r) < pts fa" "rec_add r = fa"
         "expected_gain_next_n_days r = pts fa - pts (rec_drop r)"
      by blast
    from h False have "dp # rest = (dp # before) @ rec_drop r # after
           \<and> (\<forall>x \<in> set (dp # before). \<not> pts x < pts fa)
           \<and> pts (rec_drop r) < pts fa
           \<and> rec_add r = fa
           \<and> expected_gain_next_n_days r = pts fa - pts (rec_drop r)"
      by simp
    then show ?thesis by blast
  qed
qed

lemma match_drop_none:
  "match_drop pts fa dc = None \<longleftrightarrow> (\<forall>dp \<in> set dc. \<not> pts dp < pts fa)"
  by (induction dc) (auto simp: Let_def)

lemma match_free_agents_length:
  "int (length (match_free_agents pts dc limit fas recs used))
     \<le> max (int (length recs) + 1) limit"
proof (induction fas arbitrary: recs used)
  case Nil
  show ?case by simp
next
  case (Cons fa rest)
  show ?case
  proof (cases "get_player_id fa \<in> set used")
    case True
    with Cons.IH [of recs used] show ?thesis by simp
  next
    case False
    show ?thesis
    proof (cases "match_drop pts fa dc")
      case None
      with False Cons.IH [of recs used] show ?thesis by (auto simp: max_def)
    next
      case (Some r)
      show ?thesis
      proof (cases "int (length (recs @ [r])) \<ge> limit")
        case True
        with False Some show ?thesis by simp
      next
        case over: False
        with False Some Cons.IH [of "recs @ [r]" "get_player_id fa # used"] show ?thesis
          by (auto simp: max_def)
      qed
    qed
  qed
qed

lemma match_free_agents_at_most_limit:
  assumes "1 \<le> limit"
  shows "int (length (match_free_agents pts dc limit fas [] [])) \<le> limit"
  using match_free_agents_length [of pts dc limit fas "[]" "[]"] assms by simp

lemma match_free_agents_extends:
  "\<exists>new. match_free_agents pts dc limit fas recs used = recs @ new
         \<and> (\<forall>r \<in> set new. rec_add r \<in> set fas \<and> match_drop pts (rec_add r) dc = Some r)"
proof (induction fas arbitrary: recs used)
  case Nil
  show ?case by simp
next
  case (Cons fa rest)
  show ?case
  proof (cases "get_player_id fa \<in> set used")
    case True
    with Cons.IH [of recs used] show ?thesis by auto
  next
    case False
    show ?thesis
    proof (cases "match_drop pts fa dc")
      case None
      with False Cons.IH [of recs used] show ?thesis by auto
    next
      case (Some r)
      from match_drop_first [OF Some] have add: "rec_add r = fa" by blast
      show ?thesis
      proof (cases "int (length (recs @ [r])) \<ge> limit")
        case True
        with False Some add show ?thesis by simp
      next
        case over: False
        from Cons.IH [of "recs @ [r]" "get_player_id fa # used"] obtain new where
          n: "match_free_agents pts dc limit rest (recs @ [r]) (get_player_id fa # used)
                = (recs @ [r]) @ new"
             "\<forall>x \<in> set new. rec_add x \<in> set rest \<and> match_drop pts (rec_add x) dc = Some x"
          by blast
        from n False Some over add
        have "match_free_agents pts dc limit (fa # rest) recs used = recs @ (r # new)
              \<and> (\<forall>x \<in> set (r # new). rec_add x \<in> set (fa # rest)
                    \<and> match_drop pts (rec_add x) dc = Some x)"
          by auto
        then show ?thesis by blast
      qed
    qed
  qed
qed

text \<open>
  The free agents are visited from the highest projection down, and the adds of the result
  follow that order.
\<close>

lemma sorted_desc_descending: "sorted (rev (map pts (sorted_desc pts xs)))"
  by (simp add: sorted_desc_def rev_map [symmetric])

lemma sorted_desc_set: "set (sorted_desc pts xs) = set xs"
  by (simp add: sorted_desc_def)

lemma match_free_agents_subseq:
  "\<exists>new. match_free_agents pts dc limit fas recs used = recs @ new
         \<and> subseq (map rec_add new) fas"
proof (induction fas arbitrary: recs used)
  case Nil
  show ?case by simp
next
  case (Cons fa rest)
  show ?case
  proof (cases "get_player_id fa \<in> set used")
    case True
    with Cons.IH [of recs used] show ?thesis by auto
  next
    case False
    show ?thesis
    proof (cases "match_drop pts fa dc")
      case None
      with False Cons.IH [of recs used] show ?thesis by auto
    next
      case (Some r)
      from match_drop_first [OF Some] have add: "rec_add r = fa" by blast
      show ?thesis
      proof (cases "int (length (recs @ [r])) \<ge> limit")
        case True
        with False Some add show ?thesis by simp
      next
        case over: False
        from Cons.IH [of "recs @ [r]" "get_player_id fa # used"] obtain new where
          n: "match_free_agents pts dc limit rest (recs @ [r]) (get_player_id fa # used)
                = (recs @ [r]) @ new"
             "subseq (map rec_add new) rest"
          by blast
        from n False Some over add
        have "match_free_agents pts dc limit (fa # rest) recs used = recs @ (r # new)
              \<and> subseq (map rec_add (r # new)) (fa # rest)"
          by auto
        then show ?thesis by blast
      qed
    qed
  qed
qed

text \<open>
  Two drop candidates projected at 2 and 5, two free agents projected at 10 and 3, limit 2:
  both free agents are paired with the candidate projected at 2.
\<close>

lemma spec_example_reuses_drop_candidate:
  "waiver_recommendations get_points_per_game [roster_player 2 5, roster_player 1 2]
     [roster_player 101 3, roster_player 100 10] 2 None =
     Inr \<lparr>drop_candidates_used = Some [roster_player 1 2, roster_player 2 5],
          recommendations =
            [\<lparr>rec_add = roster_player 100 10, rec_drop = roster_player 1 2,
              expected_gain_next_n_days = 8\<rparr>,
             \<lparr>rec_add = roster_player 101 3, rec_drop = roster_player 1 2,
              expected_gain_next_n_days = 1\<rparr>]\<rparr>"
  by code_simp

text \<open>
  Claim C4 says that the result has at most \<open>limit\<close> entries. The loop tests the limit
  only after it has appended: with \<open>limit = 0\<close>, one drop candidate projected at 2 and one
  free agent projected at 10, the result has one recommendation.
\<close>

theorem limit_zero_yields_one_recommendation:
  "waiver_recommendations get_points_per_game [roster_player 1 2] [roster_player 100 10] 0 None =
     Inr \<lparr>drop_candidates_used = Some [roster_player 1 2],
          recommendations =
            [\<lparr>rec_add = roster_player 100 10, rec_drop = roster_player 1 2,
              expected_gain_next_n_days = 8\<rparr>]\<rparr>"
  by code_simp

subsection \<open>Totality of the resolver\<close>

lemma games_next_n_days_returns:
  assumes "representable (now + days * US_PER_DAY) \<or> \<not> schedule_has_parsable_dates fromisoformat p"
  shows "\<exists>g. fst (games_next_n_days fromisoformat fetch now now_ts c p days) = Inr g"
proof (cases "schedule_has_parsable_dates fromisoformat p")
  case True
  with assms have "add_days now days = Inr (now + days * US_PER_DAY)"
    by (simp add: add_days_def Let_def)
  with True show ?thesis
    by (simp add: games_next_n_days_def games_next_n_days_from_player_schedule_def
        split: option.splits)
next
  case False
  show ?thesis
  proof (cases "normalize_team_abbrev (proTeam p)")
    case None
    with False show ?thesis by (simp add: games_next_n_days_def)
  next
    case (Some team)
    obtain cs c1 q1 where g: "get_team_games_cache fetch now_ts c days 900 = (cs, c1, q1)"
      by (cases "get_team_games_cache fetch now_ts c days 900") auto
    from games_next_n_days_cache_tiers [OF False Some g, of now] show ?thesis by simp
  qed
qed

lemma transport_failure_absorbed:
  assumes "\<not> schedule_has_parsable_dates fromisoformat p"
    and "normalize_team_abbrev (proTeam p) = Some team"
    and "\<not> cache_ok c now_ts days 900"
    and "fst (compute_team_games_next_n_days fetch days) = Inl e"
  shows "fst (games_next_n_days fromisoformat fetch now now_ts c p days) = Inr 0
       \<and> cache_counts (fst (snd (games_next_n_days fromisoformat fetch now now_ts c p days))) = []
       \<and> last_error (fst (snd (games_next_n_days fromisoformat fetch now now_ts c p days))) \<noteq> None"
proof -
  obtain cs c1 q1 where r: "refresh fetch now_ts days = (cs, c1, q1)"
    by (cases "refresh fetch now_ts days") auto
  with refresh_failed [OF assms(4), of now_ts]
  have f: "cs = []" "cache_counts c1 = []" "last_error c1 \<noteq> None" by simp_all
  from assms(3) r have g: "get_team_games_cache fetch now_ts c days 900 = (cs, c1, q1)"
    by (simp add: get_team_games_cache_def)
  from games_next_n_days_cache_tiers [OF assms(1,2) g, of now] f show ?thesis by simp
qed

text \<open>
  Claim C7 says that \<^verbatim>\<open>games_next_n_days\<close> never raises. At a concrete input: for a
  player with a parsable schedule and a window of 3000000 days, the end of the window lies
  after year 9999, the addition \<^verbatim>\<open>now + timedelta(days=days)\<close> raises \<^verbatim>\<open>OverflowError\<close>, and
  nothing on that path catches it.
\<close>

theorem window_past_year_9999_raises:
  "schedule_has_parsable_dates example_fromisoformat scheduled_player
   \<and> \<not> representable (example_now + 3000000 * US_PER_DAY)
   \<and> games_next_n_days example_fromisoformat scoreboard_down example_now 1000
        TEAM_SCHEDULE_CACHE scheduled_player 3000000 =
       (Inl OverflowError, TEAM_SCHEDULE_CACHE, [])"
  by code_simp

end
